theory Spec2Isabelle
  imports Complex_Main "HOL-Library.AList"
begin

section \<open>Values, exceptions and the remote server\<close>

text \<open>
  Both scripts exchange JSON with a remote HTTP API. A decoded JSON document is a Python
  value: \<open>None\<close>, a bool, an int, a float, a str, a list or a dict. A dict is kept as an
  association list whose keys are distinct (what \<open>json.loads\<close> produces).
\<close>

datatype json =
    JNull
  | JBool bool
  | JInt int
  | JFloat real
  | JStr string
  | JArr "json list"
  | JObj "(string \<times> json) list"

text \<open>
  The exceptions the code can meet. \<open>RequestException\<close> stands for every transport
  failure of the requests library (connection error, timeout, a body that its decoder
  rejects with the library's own error class); \<open>HTTPError\<close> is the subclass that
  \<open>raise_for_status\<close> raises, carrying the status code. The others are not
  subclasses of \<open>requests.exceptions.RequestException\<close>; \<open>RecursionError\<close> is what
  the interpreter raises when a call no longer fits its limit on nested calls.
\<close>

datatype exn =
    RequestException string
  | HTTPError nat
  | AttributeError
  | TypeError
  | KeyError string
  | RecursionError
  | OtherException string

fun is_RequestException :: "exn \<Rightarrow> bool" where
  "is_RequestException (RequestException m) = True"
| "is_RequestException (HTTPError st) = True"
| "is_RequestException AttributeError = False"
| "is_RequestException TypeError = False"
| "is_RequestException (KeyError k) = False"
| "is_RequestException RecursionError = False"
| "is_RequestException (OtherException m) = False"

text \<open>
  What one call of \<open>session.get\<close> produces: it raises, or it returns a response with
  a status code whose \<open>json()\<close> either decodes to a value or raises.
\<close>

datatype outcome =
    Raised exn
  | Response nat "exn + json"

text \<open>
  \<open>Response.raise_for_status\<close> of the requests library: a status from 400 to 599
  raises HTTPError, any other status returns.
\<close>

definition raise_for_status :: "nat \<Rightarrow> exn option" where
  "raise_for_status status =
     (if 400 \<le> status \<and> status < 600 then Some (HTTPError status) else None)"

text \<open>Python truthiness of a decoded value (\<open>if data\<close>, \<open>if not cursor\<close>).\<close>

fun truthy :: "json \<Rightarrow> bool" where
  "truthy JNull = False"
| "truthy (JBool b) = b"
| "truthy (JInt n) = (n \<noteq> 0)"
| "truthy (JFloat r) = (r \<noteq> 0)"
| "truthy (JStr s) = (s \<noteq> [])"
| "truthy (JArr xs) = (xs \<noteq> [])"
| "truthy (JObj kvs) = (kvs \<noteq> [])"

text \<open>
  \<open>data.get(key, default)\<close>: only a dict has the method; on any other value the
  attribute lookup raises AttributeError.
\<close>

fun dict_get :: "json \<Rightarrow> string \<Rightarrow> json \<Rightarrow> exn + json" where
  "dict_get (JObj kvs) k d = Inr (case map_of kvs k of None \<Rightarrow> d | Some v \<Rightarrow> v)"
| "dict_get JNull k d = Inl AttributeError"
| "dict_get (JBool b) k d = Inl AttributeError"
| "dict_get (JInt n) k d = Inl AttributeError"
| "dict_get (JFloat r) k d = Inl AttributeError"
| "dict_get (JStr s) k d = Inl AttributeError"
| "dict_get (JArr xs) k d = Inl AttributeError"

text \<open>
  The items \<open>list.extend\<close> appends and \<open>len\<close> counts: the elements of a list, the
  characters of a str, the keys of a dict; any other value is not iterable (TypeError).
\<close>

fun py_iter :: "json \<Rightarrow> exn + json list" where
  "py_iter (JArr xs) = Inr xs"
| "py_iter (JStr s) = Inr (map (\<lambda>c. JStr [c]) s)"
| "py_iter (JObj kvs) = Inr (map (\<lambda>kv. JStr (fst kv)) kvs)"
| "py_iter JNull = Inl TypeError"
| "py_iter (JBool b) = Inl TypeError"
| "py_iter (JInt n) = Inl TypeError"
| "py_iter (JFloat r) = Inl TypeError"

type_synonym params = "(string \<times> json) list"

type_synonym request = "string \<times> params option"

section \<open>The command-line client (kalshi_complete.py)\<close>

text \<open>
  The server is a script: the outcome of the n-th HTTP exchange of the run. The state
  passed through the client is what the run has done so far: the requests sent, in order
  (endpoint and query parameters), and the lines written to standard output by \<open>get\<close>
  and \<open>main\<close>.
\<close>

datatype out =
    API_Error exn
  | Welcome bool
  | Missing_Key_Help
  | Completed
  | Examples_Failed exn

record cstate =
  sent :: "request list"
  printed :: "out list"

text \<open>
  \<open>KalshiClient.get\<close>: a RequestException raised by the call, by
  \<open>raise_for_status\<close> (status 400 to 599) or by \<open>json()\<close> is printed and turned
  into \<open>None\<close>; any other exception leaves the function.
\<close>

definition handle_request_exception :: "exn \<Rightarrow> cstate \<Rightarrow> (exn + json) \<times> cstate" where
  "handle_request_exception e s =
     (if is_RequestException e
      then (Inr JNull, s\<lparr>printed := printed s @ [API_Error e]\<rparr>)
      else (Inl e, s))"

definition get :: "(nat \<Rightarrow> outcome) \<Rightarrow> string \<Rightarrow> params option \<Rightarrow> cstate \<Rightarrow> (exn + json) \<times> cstate" where
  "get w endpoint ps s =
     (let s1 = s\<lparr>sent := sent s @ [(endpoint, ps)]\<rparr> in
      case w (length (sent s)) of
        Raised e \<Rightarrow> handle_request_exception e s1
      | Response status body \<Rightarrow>
          (case raise_for_status status of
             Some e \<Rightarrow> handle_request_exception e s1
           | None \<Rightarrow>
               (case body of
                  Inl e \<Rightarrow> handle_request_exception e s1
                | Inr j \<Rightarrow> (Inr j, s1))))"

text \<open>
  The methods below take a ticker that is interpolated into the path as the text of the
  path segment, and a ticker or series filter that is only tested and stored as a query
  parameter as the value itself (\<open>None\<close> is \<open>JNull\<close>).

  \<open>KalshiClient.get_markets\<close>: the \<open>while True\<close> loop, with the loop variables
  \<open>params\<close>, \<open>all_markets\<close> and \<open>cursor\<close> as arguments. The loop need not end (a
  server may hand out full pages with cursors for ever), so the result is an option:
  \<open>None\<close> is a run that never returns.
\<close>

partial_function (option) get_markets_loop ::
  "(nat \<Rightarrow> outcome) \<Rightarrow> int \<Rightarrow> params \<Rightarrow> json list \<Rightarrow> json \<Rightarrow> cstate
     \<Rightarrow> ((exn + json list) \<times> cstate) option" where
  "get_markets_loop w limit ps all_markets cursor s =
     (let ps1 = (if truthy cursor then AList.update ''cursor'' cursor ps else ps);
          r = get w ''/markets'' (Some ps1) s
      in case fst r of
           Inl e \<Rightarrow> Some (Inl e, snd r)
         | Inr data \<Rightarrow>
             if \<not> truthy data then Some (Inr all_markets, snd r)
             else (case dict_get data ''markets'' (JArr []) of
                     Inl e \<Rightarrow> Some (Inl e, snd r)
                   | Inr markets \<Rightarrow>
                       (case py_iter markets of
                          Inl e \<Rightarrow> Some (Inl e, snd r)
                        | Inr items \<Rightarrow>
                            (case dict_get data ''cursor'' JNull of
                               Inl e \<Rightarrow> Some (Inl e, snd r)
                             | Inr cursor1 \<Rightarrow>
                                 if \<not> truthy cursor1 \<or> int (length items) < limit
                                 then Some (Inr (all_markets @ items), snd r)
                                 else get_markets_loop w limit ps1 (all_markets @ items) cursor1 (snd r)))))"

definition get_markets ::
  "(nat \<Rightarrow> outcome) \<Rightarrow> int \<Rightarrow> string \<Rightarrow> json \<Rightarrow> cstate
     \<Rightarrow> ((exn + json list) \<times> cstate) option" where
  "get_markets w limit status series_ticker s =
     (let ps = [(''limit'', JInt limit), (''status'', JStr status)];
          ps1 = (if truthy series_ticker then AList.update ''series_ticker'' series_ticker ps else ps)
      in get_markets_loop w limit ps1 [] JNull s)"

definition get_market :: "(nat \<Rightarrow> outcome) \<Rightarrow> string \<Rightarrow> cstate \<Rightarrow> (exn + json) \<times> cstate" where
  "get_market w ticker s =
     (let r = get w (''/markets/'' @ ticker) None s in
      case fst r of
        Inl e \<Rightarrow> (Inl e, snd r)
      | Inr data \<Rightarrow> (if truthy data then dict_get data ''market'' JNull else Inr JNull, snd r))"

definition get_orderbook :: "(nat \<Rightarrow> outcome) \<Rightarrow> string \<Rightarrow> int \<Rightarrow> cstate \<Rightarrow> (exn + json) \<times> cstate" where
  "get_orderbook w ticker depth s =
     (let ps = [(''depth'', JInt depth)];
          r = get w (''/markets/'' @ ticker @ ''/orderbook'') (Some ps) s
      in case fst r of
           Inl e \<Rightarrow> (Inl e, snd r)
         | Inr data \<Rightarrow> (if truthy data then dict_get data ''orderbook'' JNull else Inr JNull, snd r))"

definition get_trades :: "(nat \<Rightarrow> outcome) \<Rightarrow> json \<Rightarrow> int \<Rightarrow> cstate \<Rightarrow> (exn + json) \<times> cstate" where
  "get_trades w ticker limit s =
     (let ps = [(''limit'', JInt limit)];
          ps1 = (if truthy ticker then AList.update ''ticker'' ticker ps else ps);
          r = get w ''/markets/trades'' (Some ps1) s
      in case fst r of
           Inl e \<Rightarrow> (Inl e, snd r)
         | Inr data \<Rightarrow> (if truthy data then dict_get data ''trades'' (JArr []) else Inr (JArr []), snd r))"

definition get_series :: "(nat \<Rightarrow> outcome) \<Rightarrow> string option \<Rightarrow> cstate \<Rightarrow> (exn + json) \<times> cstate" where
  "get_series w ticker s =
     (let t = (case ticker of None \<Rightarrow> [] | Some t \<Rightarrow> t) in
      if t \<noteq> []
      then (let r = get w (''/series/'' @ t) None s in
            case fst r of
              Inl e \<Rightarrow> (Inl e, snd r)
            | Inr data \<Rightarrow> (if truthy data then dict_get data ''series'' JNull else Inr JNull, snd r))
      else (let r = get w ''/series'' None s in
            case fst r of
              Inl e \<Rightarrow> (Inl e, snd r)
            | Inr data \<Rightarrow> (if truthy data then dict_get data ''series'' (JArr []) else Inr (JArr []), snd r)))"

subsection \<open>The demo sequence and \<open>main\<close>\<close>

text \<open>
  The four demo functions fetch through a fresh client and hand the data to presentation
  code (formatted printing, date parsing, plotting). The presentation is a parameter: for
  each block of presentation statements, whether it completes or which exception it
  raises on the given data, and the text Python's \<open>str()\<close> gives a value that is not a
  str. What the demos fetch, in which order and under which tests, is written out.
\<close>

record presentation =
  str_of :: "json \<Rightarrow> string"
  show_markets :: "json list \<Rightarrow> exn option"
  show_title :: "json \<Rightarrow> exn option"
  show_orderbook :: "json \<Rightarrow> exn option"
  show_trades :: "json \<Rightarrow> exn option"
  show_series :: "json \<Rightarrow> exn option"
  plot :: "json list \<Rightarrow> exn option"

definition py_str :: "presentation \<Rightarrow> json \<Rightarrow> string" where
  "py_str P j = (case j of JStr t \<Rightarrow> t | _ \<Rightarrow> str_of P j)"

text \<open>\<open>value[key]\<close> with a str key: a dict without the key raises KeyError, anything
  but a dict raises TypeError.\<close>

definition subscript :: "json \<Rightarrow> string \<Rightarrow> exn + json" where
  "subscript j k =
     (case j of
        JObj kvs \<Rightarrow> (case map_of kvs k of None \<Rightarrow> Inl (KeyError k) | Some v \<Rightarrow> Inr v)
      | _ \<Rightarrow> Inl TypeError)"

definition run_quick_start ::
  "presentation \<Rightarrow> (nat \<Rightarrow> outcome) \<Rightarrow> cstate \<Rightarrow> ((exn + unit) \<times> cstate) option" where
  "run_quick_start P w s =
     (case get_markets w 5 ''open'' JNull s of
        None \<Rightarrow> None
      | Some (Inl e, s1) \<Rightarrow> Some (Inl e, s1)
      | Some (Inr markets, s1) \<Rightarrow>
          if markets \<noteq> []
          then (case show_markets P markets of
                  Some e \<Rightarrow> Some (Inl e, s1)
                | None \<Rightarrow> Some (Inr (), s1))
          else Some (Inr (), s1))"

definition run_market_analysis ::
  "presentation \<Rightarrow> (nat \<Rightarrow> outcome) \<Rightarrow> cstate \<Rightarrow> ((exn + unit) \<times> cstate) option" where
  "run_market_analysis P w s =
     (case get_markets w 10 ''open'' JNull s of
        None \<Rightarrow> None
      | Some (Inl e, s1) \<Rightarrow> Some (Inl e, s1)
      | Some (Inr [], s1) \<Rightarrow> Some (Inr (), s1)
      | Some (Inr (market # rest), s1) \<Rightarrow>
          (case subscript market ''ticker'' of
             Inl e \<Rightarrow> Some (Inl e, s1)
           | Inr ticker \<Rightarrow>
               (case show_title P market of
                  Some e \<Rightarrow> Some (Inl e, s1)
                | None \<Rightarrow>
                    (case get_orderbook w (py_str P ticker) 5 s1 of
                       (Inl e, s2) \<Rightarrow> Some (Inl e, s2)
                     | (Inr orderbook, s2) \<Rightarrow>
                         (case (if truthy orderbook then show_orderbook P orderbook else None) of
                            Some e \<Rightarrow> Some (Inl e, s2)
                          | None \<Rightarrow>
                              (case get_trades w ticker 10 s2 of
                                 (Inl e, s3) \<Rightarrow> Some (Inl e, s3)
                               | (Inr trades, s3) \<Rightarrow>
                                   (case (if truthy trades then show_trades P trades else None) of
                                      Some e \<Rightarrow> Some (Inl e, s3)
                                    | None \<Rightarrow> Some (Inr (), s3))))))))"

definition run_series_explorer ::
  "presentation \<Rightarrow> (nat \<Rightarrow> outcome) \<Rightarrow> cstate \<Rightarrow> ((exn + unit) \<times> cstate) option" where
  "run_series_explorer P w s =
     (case get_series w None s of
        (Inl e, s1) \<Rightarrow> Some (Inl e, s1)
      | (Inr series, s1) \<Rightarrow>
          if truthy series
          then (case show_series P series of
                  Some e \<Rightarrow> Some (Inl e, s1)
                | None \<Rightarrow> Some (Inr (), s1))
          else Some (Inr (), s1))"

definition run_visualization ::
  "presentation \<Rightarrow> (nat \<Rightarrow> outcome) \<Rightarrow> cstate \<Rightarrow> ((exn + unit) \<times> cstate) option" where
  "run_visualization P w s =
     (case get_markets w 15 ''open'' JNull s of
        None \<Rightarrow> None
      | Some (Inl e, s1) \<Rightarrow> Some (Inl e, s1)
      | Some (Inr markets, s1) \<Rightarrow>
          if length markets < 3 then Some (Inr (), s1)
          else (case plot P markets of
                  Some e \<Rightarrow> Some (Inl e, s1)
                | None \<Rightarrow> Some (Inr (), s1)))"

text \<open>The body of the \<open>try\<close> block of \<open>main\<close>: the four demos in order, left at
  the first exception.\<close>

definition run_examples ::
  "presentation \<Rightarrow> (nat \<Rightarrow> outcome) \<Rightarrow> cstate \<Rightarrow> ((exn + unit) \<times> cstate) option" where
  "run_examples P w s =
     (case run_quick_start P w s of
        None \<Rightarrow> None
      | Some (Inl e, s1) \<Rightarrow> Some (Inl e, s1)
      | Some (Inr u, s1) \<Rightarrow>
          (case run_market_analysis P w s1 of
             None \<Rightarrow> None
           | Some (Inl e, s2) \<Rightarrow> Some (Inl e, s2)
           | Some (Inr u, s2) \<Rightarrow>
               (case run_series_explorer P w s2 of
                  None \<Rightarrow> None
                | Some (Inl e, s3) \<Rightarrow> Some (Inl e, s3)
                | Some (Inr u, s3) \<Rightarrow> run_visualization P w s3)))"

text \<open>
  \<open>main\<close>. \<open>API_KEY\<close> is what \<open>os.getenv\<close> returned when the module was loaded:
  \<open>None\<close> for an absent variable, else its text; \<open>not API_KEY\<close> holds for \<open>None\<close>
  and for the empty text.
\<close>

definition key_loaded :: "string option \<Rightarrow> bool" where
  "key_loaded k = (case k of None \<Rightarrow> False | Some v \<Rightarrow> v \<noteq> [])"

definition display_welcome :: "string option \<Rightarrow> cstate \<Rightarrow> cstate" where
  "display_welcome api_key s = s\<lparr>printed := printed s @ [Welcome (key_loaded api_key)]\<rparr>"

definition main :: "presentation \<Rightarrow> (nat \<Rightarrow> outcome) \<Rightarrow> string option \<Rightarrow> cstate \<Rightarrow> cstate option" where
  "main P w api_key s =
     (let s0 = display_welcome api_key s in
      if \<not> key_loaded api_key
      then Some (s0\<lparr>printed := printed s0 @ [Missing_Key_Help]\<rparr>)
      else (case run_examples P w s0 of
              None \<Rightarrow> None
            | Some (Inl e, s1) \<Rightarrow> Some (s1\<lparr>printed := printed s1 @ [Examples_Failed e]\<rparr>)
            | Some (Inr u, s1) \<Rightarrow> Some (s1\<lparr>printed := printed s1 @ [Completed]\<rparr>)))"

section \<open>The dashboard client (kalshi_simple_dashboard.py)\<close>

text \<open>
  The dashboard client paces its requests by a clock. The state carries the client's
  \<open>last_request\<close> field, the clock, the number of HTTP exchanges made so far and the
  trace of effects: each sleep with the duration asked for, each request with its
  dispatch time, each warning and each error shown on the page.

  The script gives, for the n-th HTTP exchange of the run, its outcome and how long it
  takes, and by how much the pacing sleep before it and the back-off sleep after it
  overshoot. Reading the clock and the other statements take no time.
\<close>

datatype event =
    Sleep real
  | Http_Get real string "params option"
  | St_Warning
  | St_Error exn

record exchange =
  pace_lag :: real
  latency :: real
  result :: outcome
  backoff_lag :: real

record dstate =
  last_request :: real
  now :: real
  pos :: nat
  trace :: "event list"

text \<open>\<open>SimpleKalshiClient.__init__\<close> at clock \<open>t\<close>, after \<open>n\<close> exchanges of the run.\<close>

definition init :: "real \<Rightarrow> nat \<Rightarrow> dstate" where
  "init t n = \<lparr>last_request = 0, now = t, pos = n, trace = []\<rparr>"

definition sleep :: "real \<Rightarrow> real \<Rightarrow> dstate \<Rightarrow> dstate" where
  "sleep d lag s = s\<lparr>now := now s + d + lag, trace := trace s @ [Sleep d]\<rparr>"

definition st_warning :: "dstate \<Rightarrow> dstate" where
  "st_warning s = s\<lparr>trace := trace s @ [St_Warning]\<rparr>"

definition st_error :: "exn \<Rightarrow> dstate \<Rightarrow> dstate" where
  "st_error e s = s\<lparr>trace := trace s @ [St_Error e]\<rparr>"

definition session_get :: "(nat \<Rightarrow> exchange) \<Rightarrow> string \<Rightarrow> params option \<Rightarrow> dstate \<Rightarrow> dstate" where
  "session_get w endpoint ps s =
     s\<lparr>trace := trace s @ [Http_Get (now s) endpoint ps],
       now := now s + latency (w (pos s)),
       pos := Suc (pos s)\<rparr>"

text \<open>
  \<open>SimpleKalshiClient.safe_request\<close>. The handler \<open>except Exception\<close> catches every
  exception of the model; the value returned is the decoded body, or \<open>None\<close>
  (\<open>JNull\<close>).

  The function calls itself on status 429, and the interpreter bounds the depth of nested
  calls: \<open>depth\<close> is the number of further nested calls of \<open>safe_request\<close> that the
  interpreter admits when the call is entered. When none is left, the call in the 429
  branch raises RecursionError; it stands inside the \<open>try\<close> block, so the handler
  catches the error, shows it and returns \<open>None\<close>. A RecursionError raised inside
  \<open>session.get\<close> is an outcome \<open>Raised RecursionError\<close> of the script;
  \<open>st.warning\<close> and \<open>st.error\<close> are taken to run.
\<close>

fun safe_request ::
  "(nat \<Rightarrow> exchange) \<Rightarrow> string \<Rightarrow> params option \<Rightarrow> nat \<Rightarrow> dstate \<Rightarrow> json \<times> dstate" where
  "safe_request w endpoint ps depth s =
     (let x = w (pos s);
          current_time = now s;
          s1 = (if current_time - last_request s < 0.5
                then sleep (0.5 - (current_time - last_request s)) (pace_lag x) s
                else s);
          s2 = session_get w endpoint ps s1
      in case result x of
           Raised e \<Rightarrow> (JNull, st_error e s2)
         | Response status body \<Rightarrow>
             if status = 429
             then (let s3 = sleep 3 (backoff_lag x) (st_warning s2) in
                   case depth of
                     0 \<Rightarrow> (JNull, st_error RecursionError s3)
                   | Suc d \<Rightarrow> safe_request w endpoint ps d s3)
             else (case raise_for_status status of
                     Some e \<Rightarrow> (JNull, st_error e s2)
                   | None \<Rightarrow>
                       (let s3 = s2\<lparr>last_request := now s2\<rparr> in
                        case body of
                          Inl e \<Rightarrow> (JNull, st_error e s3)
                        | Inr j \<Rightarrow> (j, s3))))"

text \<open>
  The three accessors of the dashboard client (prefixed, as the names are taken). They
  pass on the depth of nested calls that the interpreter admits.
\<close>

definition simple_get_markets ::
  "(nat \<Rightarrow> exchange) \<Rightarrow> int \<Rightarrow> nat \<Rightarrow> dstate \<Rightarrow> (exn + json) \<times> dstate" where
  "simple_get_markets w limit depth s =
     (let ps = [(''limit'', JInt (min limit 100)), (''status'', JStr ''open'')] in
      case safe_request w ''/markets'' (Some ps) depth s of
        (data, s1) \<Rightarrow>
          (if truthy data then dict_get data ''markets'' (JArr []) else Inr (JArr []), s1))"

definition simple_get_orderbook ::
  "(nat \<Rightarrow> exchange) \<Rightarrow> string \<Rightarrow> nat \<Rightarrow> dstate \<Rightarrow> (exn + json) \<times> dstate" where
  "simple_get_orderbook w ticker depth s =
     (case safe_request w (''/markets/'' @ ticker @ ''/orderbook'') None depth s of
        (data, s1) \<Rightarrow>
          (if truthy data then dict_get data ''orderbook'' JNull else Inr JNull, s1))"

definition simple_get_trades ::
  "(nat \<Rightarrow> exchange) \<Rightarrow> int \<Rightarrow> nat \<Rightarrow> dstate \<Rightarrow> (exn + json) \<times> dstate" where
  "simple_get_trades w limit depth s =
     (let ps = [(''limit'', JInt (min limit 50))] in
      case safe_request w ''/markets/trades'' (Some ps) depth s of
        (data, s1) \<Rightarrow>
          (if truthy data then dict_get data ''trades'' (JArr []) else Inr (JArr []), s1))"

section \<open>Vocabulary of the properties\<close>

text \<open>
  The exception raised inside the \<open>try\<close> block of \<open>get\<close> for a given outcome of
  the exchange, if any: by the call itself, by \<open>raise_for_status\<close>, or by \<open>json()\<close>.
\<close>

definition failure :: "outcome \<Rightarrow> exn option" where
  "failure x =
     (case x of
        Raised e \<Rightarrow> Some e
      | Response status body \<Rightarrow>
          (case raise_for_status status of
             Some e \<Rightarrow> Some e
           | None \<Rightarrow> (case body of Inl e \<Rightarrow> Some e | Inr j \<Rightarrow> None)))"

text \<open>
  A page of the markets endpoint is a dict whose \<open>markets\<close> entry, when present, is a
  list. Its items and its cursor are what \<open>data.get('markets', [])\<close> and
  \<open>data.get('cursor')\<close> read; the loop goes on after a page exactly when the test
  \<open>not cursor or len(markets) < limit\<close> fails.
\<close>

definition is_page :: "json \<Rightarrow> bool" where
  "is_page d =
     (case d of
        JObj kvs \<Rightarrow> (case map_of kvs ''markets'' of
                      None \<Rightarrow> True
                    | Some m \<Rightarrow> (case m of JArr xs \<Rightarrow> True | _ \<Rightarrow> False))
      | _ \<Rightarrow> False)"

definition page_items :: "json \<Rightarrow> json list" where
  "page_items d =
     (case d of
        JObj kvs \<Rightarrow> (case map_of kvs ''markets'' of
                      None \<Rightarrow> []
                    | Some m \<Rightarrow> (case m of JArr xs \<Rightarrow> xs | _ \<Rightarrow> []))
      | _ \<Rightarrow> [])"

definition page_cursor :: "json \<Rightarrow> json" where
  "page_cursor d =
     (case d of
        JObj kvs \<Rightarrow> (case map_of kvs ''cursor'' of None \<Rightarrow> JNull | Some c \<Rightarrow> c)
      | _ \<Rightarrow> JNull)"

definition more_pages :: "int \<Rightarrow> json \<Rightarrow> bool" where
  "more_pages limit d = (truthy (page_cursor d) \<and> limit \<le> int (length (page_items d)))"

text \<open>The query parameters of the first request of \<open>get_markets\<close>, and of a request
  that follows a page with cursor \<open>c\<close>.\<close>

definition first_params :: "int \<Rightarrow> string \<Rightarrow> json \<Rightarrow> params" where
  "first_params limit status series_ticker =
     (if truthy series_ticker
      then [(''limit'', JInt limit), (''status'', JStr status), (''series_ticker'', series_ticker)]
      else [(''limit'', JInt limit), (''status'', JStr status)])"

definition next_params :: "json \<Rightarrow> params \<Rightarrow> params" where
  "next_params cursor ps = (if truthy cursor then AList.update ''cursor'' cursor ps else ps)"

definition next_request :: "params \<Rightarrow> json \<Rightarrow> request" where
  "next_request ps d = (''/markets'', Some (AList.update ''cursor'' (page_cursor d) ps))"

text \<open>
  The dashboard client. \<open>pace\<close> is the rate-limiting block at the head of
  \<open>safe_request\<close>; \<open>back_off\<close> is the state in which \<open>safe_request\<close> calls itself
  after a response with status 429; \<open>finish\<close> is what it returns on any other outcome
  (lemma \<open>safe_request_unfold\<close> below states the function in these terms).
  The run of a call is read off the trace: the requests dispatched and their
  times, the errors shown, the number of warnings, and whether every warning is directly
  followed by a sleep of 3 seconds.
\<close>

definition rate_limited :: "outcome \<Rightarrow> bool" where
  "rate_limited x = (case x of Raised e \<Rightarrow> False | Response status body \<Rightarrow> status = 429)"

definition pace :: "(nat \<Rightarrow> exchange) \<Rightarrow> dstate \<Rightarrow> dstate" where
  "pace w s =
     (if now s - last_request s < 0.5
      then sleep (0.5 - (now s - last_request s)) (pace_lag (w (pos s))) s
      else s)"

definition back_off :: "(nat \<Rightarrow> exchange) \<Rightarrow> string \<Rightarrow> params option \<Rightarrow> dstate \<Rightarrow> dstate" where
  "back_off w endpoint ps s =
     sleep 3 (backoff_lag (w (pos s))) (st_warning (session_get w endpoint ps (pace w s)))"

definition finish :: "(nat \<Rightarrow> exchange) \<Rightarrow> string \<Rightarrow> params option \<Rightarrow> dstate \<Rightarrow> json \<times> dstate" where
  "finish w endpoint ps s =
     (let s2 = session_get w endpoint ps (pace w s) in
      case result (w (pos s)) of
        Raised e \<Rightarrow> (JNull, st_error e s2)
      | Response status body \<Rightarrow>
          (case raise_for_status status of
             Some e \<Rightarrow> (JNull, st_error e s2)
           | None \<Rightarrow>
               (case body of
                  Inl e \<Rightarrow> (JNull, st_error e (s2\<lparr>last_request := now s2\<rparr>))
                | Inr j \<Rightarrow> (j, s2\<lparr>last_request := now s2\<rparr>))))"

definition requests_of :: "event list \<Rightarrow> request list" where
  "requests_of evs =
     concat (map (\<lambda>ev. case ev of Http_Get t endpoint ps \<Rightarrow> [(endpoint, ps)] | _ \<Rightarrow> []) evs)"

definition dispatch_times :: "event list \<Rightarrow> real list" where
  "dispatch_times evs =
     concat (map (\<lambda>ev. case ev of Http_Get t endpoint ps \<Rightarrow> [t] | _ \<Rightarrow> []) evs)"

definition errors_of :: "event list \<Rightarrow> exn list" where
  "errors_of evs = concat (map (\<lambda>ev. case ev of St_Error e \<Rightarrow> [e] | _ \<Rightarrow> []) evs)"

definition warnings_of :: "event list \<Rightarrow> nat" where
  "warnings_of evs = length (filter (\<lambda>ev. ev = St_Warning) evs)"

fun backed_off :: "event list \<Rightarrow> bool" where
  "backed_off [] = True"
| "backed_off (St_Warning # evs) = (case evs of Sleep d # rest \<Rightarrow> d = 3 \<and> backed_off rest | _ \<Rightarrow> False)"
| "backed_off (Sleep d # evs) = backed_off evs"
| "backed_off (Http_Get t endpoint ps # evs) = backed_off evs"
| "backed_off (St_Error e # evs) = backed_off evs"

definition decoded :: "outcome \<Rightarrow> json" where
  "decoded x =
     (case x of
        Raised e \<Rightarrow> JNull
      | Response status body \<Rightarrow> (case body of Inl e \<Rightarrow> JNull | Inr j \<Rightarrow> j))"

definition http_failed :: "outcome \<Rightarrow> bool" where
  "http_failed x =
     (case x of Raised e \<Rightarrow> True | Response status body \<Rightarrow> raise_for_status status \<noteq> None)"

section \<open>Sample runs\<close>

text \<open>Concrete servers and data on which the properties below are exercised.\<close>

definition market :: "string \<Rightarrow> int \<Rightarrow> json" where
  "market ticker yes =
     JObj [(''ticker'', JStr ticker), (''title'', JStr ''Will X happen?''), (''yes_price'', JInt yes),
           (''no_price'', JInt (100 - yes)), (''volume'', JInt 1000), (''status'', JStr ''open'')]"

definition page_one :: json where
  "page_one = JObj [(''markets'', JArr [market ''A'' 63, market ''B'' 40]), (''cursor'', JStr ''c1'')]"

definition page_two :: json where
  "page_two = JObj [(''markets'', JArr [market ''C'' 10]), (''cursor'', JNull)]"

definition two_pages :: "nat \<Rightarrow> outcome" where
  "two_pages n = (if n = 0 then Response 200 (Inr page_one) else Response 200 (Inr page_two))"

definition page_then_timeout :: "nat \<Rightarrow> outcome" where
  "page_then_timeout n =
     (if n = 0 then Response 200 (Inr page_one) else Raised (RequestException ''timed out''))"

definition start :: cstate where
  "start = \<lparr>sent = [], printed = []\<rparr>"

definition book5 :: json where
  "book5 = JObj [(''yes_bid'', JInt 63), (''bids'', JArr [JInt 1, JInt 2, JInt 3, JInt 4, JInt 5])]"

definition ok_body :: json where
  "ok_body = JObj [(''markets'', JArr [market ''ABC'' 63]), (''cursor'', JNull)]"

definition exchange_of :: "outcome \<Rightarrow> exchange" where
  "exchange_of x = \<lparr>pace_lag = 0, latency = 1, result = x, backoff_lag = 0\<rparr>"





definition always_ok :: "nat \<Rightarrow> exchange" where
  "always_ok n = exchange_of (Response 200 (Inr ok_body))"

definition limited_then_down :: "nat \<Rightarrow> exchange" where
  "limited_then_down n =
     exchange_of (if n = 0 then Response 429 (Inr JNull) else Response 503 (Inr JNull))"

definition just_served :: dstate where
  "just_served = \<lparr>last_request = 10, now = 10.2, pos = 0, trace = []\<rparr>"

definition just_served_end :: dstate where
  "just_served_end =
     \<lparr>last_request = 11.5, now = 11.5, pos = 1,
      trace = [Sleep 0.3, Http_Get 10.5 ''/markets'' None]\<rparr>"

definition limited_then_down_end :: dstate where
  "limited_then_down_end =
     \<lparr>last_request = 0, now = 15, pos = 2,
      trace = [Http_Get 10 ''/markets'' None, St_Warning, Sleep 3,
               Http_Get 14 ''/markets'' None, St_Error (HTTPError 503)]\<rparr>"

definition asked_500_end :: dstate where
  "asked_500_end =
     \<lparr>last_request = 11, now = 11, pos = 1,
      trace = [Http_Get 10 ''/markets''
                 (Some [(''limit'', JInt 100), (''status'', JStr ''open'')])]\<rparr>"

definition trades_500_end :: dstate where
  "trades_500_end =
     \<lparr>last_request = 11, now = 11, pos = 1,
      trace = [Http_Get 10 ''/markets/trades'' (Some [(''limit'', JInt 50)])]\<rparr>"

definition plain :: presentation where
  "plain = \<lparr>str_of = (\<lambda>j. []), show_markets = (\<lambda>ms. None), show_title = (\<lambda>m. None),
            show_orderbook = (\<lambda>b. None), show_trades = (\<lambda>ts. None),
            show_series = (\<lambda>ss. None), plot = (\<lambda>ms. None)\<rparr>"

definition down :: "nat \<Rightarrow> outcome" where
  "down n = Raised (RequestException ''connection refused'')"

definition broken :: "nat \<Rightarrow> outcome" where
  "broken n = Raised (OtherException ''interrupted'')"


definition failing_fast :: "nat \<Rightarrow> exchange" where
  "failing_fast n =
     \<lparr>pace_lag = 0, latency = 0.01, result = Response 503 (Inr JNull), backoff_lag = 0\<rparr>"

definition failed_once :: dstate where
  "failed_once =
     \<lparr>last_request = 0, now = 1000.01, pos = 1,
      trace = [Http_Get 1000 ''/markets'' None, St_Error (HTTPError 503)]\<rparr>"

definition failed_twice :: dstate where
  "failed_twice =
     \<lparr>last_request = 0, now = 1000.02, pos = 2,
      trace = [Http_Get 1000 ''/markets'' None, St_Error (HTTPError 503),
               Http_Get 1000.01 ''/markets'' None, St_Error (HTTPError 503)]\<rparr>"

section \<open>Properties of the command-line client\<close>

lemma get_success:
  "w (length (sent s)) = Response status (Inr j) \<Longrightarrow> raise_for_status status = None \<Longrightarrow>
   get w endpoint ps s = (Inr j, s\<lparr>sent := sent s @ [(endpoint, ps)]\<rparr>)"
  by (simp add: get_def)

subsection \<open>Pagination\<close>

lemma page_reads:
  assumes "is_page d"
  shows "dict_get d ''markets'' (JArr []) = Inr (JArr (page_items d))"
    and "dict_get d ''cursor'' JNull = Inr (page_cursor d)"
  using assms
  by (auto simp: is_page_def page_items_def page_cursor_def split: json.splits option.splits)

lemma more_pages_truthy: "is_page d \<Longrightarrow> more_pages limit d \<Longrightarrow> truthy d"
  by (auto simp: is_page_def more_pages_def page_cursor_def split: json.splits option.splits)

lemma loop_more:
  assumes "w (length (sent s)) = Response st (Inr d)" "raise_for_status st = None"
    "is_page d" "more_pages limit d"
  shows "get_markets_loop w limit ps acc cur s =
         get_markets_loop w limit (next_params cur ps) (acc @ page_items d) (page_cursor d)
           (s\<lparr>sent := sent s @ [(''/markets'', Some (next_params cur ps))]\<rparr>)"
proof -
  have g: "get w ''/markets'' (Some (next_params cur ps)) s =
        (Inr d, s\<lparr>sent := sent s @ [(''/markets'', Some (next_params cur ps))]\<rparr>)"
    using assms(1,2) by (rule get_success)
  have t: "truthy d" using assms(3,4) by (rule more_pages_truthy)
  have m: "truthy (page_cursor d)" "\<not> int (length (page_items d)) < limit"
    using assms(4) by (auto simp: more_pages_def)
  show ?thesis
    apply (subst get_markets_loop.simps)
    apply (simp only: Let_def next_params_def[symmetric] g fst_conv snd_conv sum.case t
        page_reads[OF assms(3)] py_iter.simps m simp_thms if_False if_True)
    done
qed

lemma loop_last:
  assumes "w (length (sent s)) = Response st (Inr d)" "raise_for_status st = None"
    "is_page d" "\<not> more_pages limit d"
  shows "get_markets_loop w limit ps acc cur s =
         Some (Inr (acc @ page_items d), s\<lparr>sent := sent s @ [(''/markets'', Some (next_params cur ps))]\<rparr>)"
proof -
  have g: "get w ''/markets'' (Some (next_params cur ps)) s =
        (Inr d, s\<lparr>sent := sent s @ [(''/markets'', Some (next_params cur ps))]\<rparr>)"
    using assms(1,2) by (rule get_success)
  have m: "\<not> truthy (page_cursor d) \<or> int (length (page_items d)) < limit"
    using assms(4) by (auto simp: more_pages_def)
  have e: "\<not> truthy d \<Longrightarrow> page_items d = []"
    using assms(3) by (auto simp: is_page_def page_items_def split: json.splits option.splits)
  show ?thesis
    apply (subst get_markets_loop.simps)
    apply (simp only: Let_def next_params_def[symmetric] g fst_conv snd_conv sum.case
        page_reads[OF assms(3)] py_iter.simps)
    using m e apply auto
    done
qed

lemma loop_failed:
  assumes "failure (w (length (sent s))) = Some e" "is_RequestException e"
  shows "get_markets_loop w limit ps acc cur s =
         Some (Inr acc, s\<lparr>sent := sent s @ [(''/markets'', Some (next_params cur ps))],
                          printed := printed s @ [API_Error e]\<rparr>)"
proof -
  have g: "get w ''/markets'' (Some (next_params cur ps)) s =
        (Inr JNull, s\<lparr>sent := sent s @ [(''/markets'', Some (next_params cur ps))],
                          printed := printed s @ [API_Error e]\<rparr>)"
    using assms by (auto simp: get_def failure_def handle_request_exception_def split: outcome.splits option.splits sum.splits)
  show ?thesis
    apply (subst get_markets_loop.simps)
    apply (simp only: Let_def next_params_def[symmetric] g fst_conv snd_conv sum.case)
    apply simp
    done
qed

lemma next_request_update: "next_request (AList.update ''cursor'' c ps) d = next_request ps d"
  by (simp add: next_request_def)

lemma served_tail:
  assumes "\<forall>i<length (d # rest). \<exists>st. w (length (sent s) + i) = Response st (Inr ((d # rest) ! i)) \<and> raise_for_status st = None"
  shows "\<forall>i<length rest. \<exists>st. w (length (sent (s\<lparr>sent := sent s @ [r]\<rparr>)) + i) = Response st (Inr (rest ! i)) \<and> raise_for_status st = None"
proof (intro allI impI)
  fix i assume "i < length rest"
  then have "Suc i < length (d # rest)" by simp
  with assms obtain st where "w (length (sent s) + Suc i) = Response st (Inr ((d # rest) ! Suc i)) \<and> raise_for_status st = None"
    by blast
  then show "\<exists>st. w (length (sent (s\<lparr>sent := sent s @ [r]\<rparr>)) + i) = Response st (Inr (rest ! i)) \<and> raise_for_status st = None"
    by auto
qed

lemma served_head:
  assumes "\<forall>i<length (d # rest). \<exists>st. w (length (sent s) + i) = Response st (Inr ((d # rest) ! i)) \<and> raise_for_status st = None"
  obtains st where "w (length (sent s)) = Response st (Inr d)" "raise_for_status st = None"
  using assms by fastforce

lemma loop_all_pages:
  assumes "pages \<noteq> []"
    and "\<forall>i<length pages. \<exists>st. w (length (sent s) + i) = Response st (Inr (pages ! i)) \<and> raise_for_status st = None"
    and "\<forall>d\<in>set pages. is_page d"
    and "\<forall>d\<in>set (butlast pages). more_pages limit d"
    and "\<not> more_pages limit (last pages)"
  shows "get_markets_loop w limit ps acc cur s =
     Some (Inr (acc @ concat (map page_items pages)),
           s\<lparr>sent := sent s @ (''/markets'', Some (next_params cur ps)) #
                        map (next_request (next_params cur ps)) (butlast pages)\<rparr>)"
  using assms
proof (induction pages arbitrary: s ps acc cur)
  case Nil
  then show ?case by simp
next
  case (Cons d rest)
  obtain st where st: "w (length (sent s)) = Response st (Inr d)" "raise_for_status st = None"
    using Cons.prems(2) by (rule served_head)
  have pd: "is_page d" using Cons.prems(3) by simp
  show ?case
  proof (cases "rest = []")
    case True
    then have "\<not> more_pages limit d" using Cons.prems(5) by simp
    with st pd show ?thesis using True by (simp add: loop_last)
  next
    case False
    let ?np = "next_params cur ps"
    let ?s1 = "s\<lparr>sent := sent s @ [(''/markets'', Some ?np)]\<rparr>"
    have md: "more_pages limit d" using Cons.prems(4) False by simp
    have step: "get_markets_loop w limit ps acc cur s =
        get_markets_loop w limit ?np (acc @ page_items d) (page_cursor d) ?s1"
      using st pd md by (rule loop_more)
    have c: "truthy (page_cursor d)" using md by (simp add: more_pages_def)
    have ih: "get_markets_loop w limit ?np (acc @ page_items d) (page_cursor d) ?s1 =
       Some (Inr ((acc @ page_items d) @ concat (map page_items rest)),
           ?s1\<lparr>sent := sent ?s1 @ (''/markets'', Some (next_params (page_cursor d) ?np)) #
                        map (next_request (next_params (page_cursor d) ?np)) (butlast rest)\<rparr>)"
    proof (rule Cons.IH)
      show "rest \<noteq> []" by (rule False)
      show "\<forall>i<length rest. \<exists>st. w (length (sent ?s1) + i) = Response st (Inr (rest ! i)) \<and> raise_for_status st = None"
        using Cons.prems(2) by (rule served_tail)
      show "\<forall>d\<in>set rest. is_page d" using Cons.prems(3) by simp
      show "\<forall>d\<in>set (butlast rest). more_pages limit d" using Cons.prems(4) False by simp
      show "\<not> more_pages limit (last rest)" using Cons.prems(5) False by simp
    qed
    have np: "next_params (page_cursor d) ?np = AList.update ''cursor'' (page_cursor d) ?np"
      using c by (simp add: next_params_def)
    show ?thesis
      unfolding step ih np next_request_update
      using False by (simp add: next_request_def)
  qed
qed

lemma loop_pages_then_failure:
  assumes "\<forall>i<length pages. \<exists>st. w (length (sent s) + i) = Response st (Inr (pages ! i)) \<and> raise_for_status st = None"
    and "\<forall>d\<in>set pages. is_page d \<and> more_pages limit d"
    and "failure (w (length (sent s) + length pages)) = Some e"
    and "is_RequestException e"
  shows "get_markets_loop w limit ps acc cur s =
     Some (Inr (acc @ concat (map page_items pages)),
           s\<lparr>sent := sent s @ (''/markets'', Some (next_params cur ps)) #
                        map (next_request (next_params cur ps)) pages,
             printed := printed s @ [API_Error e]\<rparr>)"
  using assms
proof (induction pages arbitrary: s ps acc cur)
  case Nil
  then show ?case by (simp add: loop_failed)
next
  case (Cons d rest)
  obtain st where st: "w (length (sent s)) = Response st (Inr d)" "raise_for_status st = None"
    using Cons.prems(1) by (rule served_head)
  have pd: "is_page d" and md: "more_pages limit d" using Cons.prems(2) by simp_all
  let ?np = "next_params cur ps"
  let ?s1 = "s\<lparr>sent := sent s @ [(''/markets'', Some ?np)]\<rparr>"
  have step: "get_markets_loop w limit ps acc cur s =
      get_markets_loop w limit ?np (acc @ page_items d) (page_cursor d) ?s1"
    using st pd md by (rule loop_more)
  have c: "truthy (page_cursor d)" using md by (simp add: more_pages_def)
  have ih: "get_markets_loop w limit ?np (acc @ page_items d) (page_cursor d) ?s1 =
     Some (Inr ((acc @ page_items d) @ concat (map page_items rest)),
         ?s1\<lparr>sent := sent ?s1 @ (''/markets'', Some (next_params (page_cursor d) ?np)) #
                      map (next_request (next_params (page_cursor d) ?np)) rest,
             printed := printed ?s1 @ [API_Error e]\<rparr>)"
  proof (rule Cons.IH)
    show "\<forall>i<length rest. \<exists>st. w (length (sent ?s1) + i) = Response st (Inr (rest ! i)) \<and> raise_for_status st = None"
      using Cons.prems(1) by (rule served_tail)
    show "\<forall>d\<in>set rest. is_page d \<and> more_pages limit d" using Cons.prems(2) by simp
    show "failure (w (length (sent ?s1) + length rest)) = Some e" using Cons.prems(3) by simp
    show "is_RequestException e" by (rule Cons.prems(4))
  qed
  have np: "next_params (page_cursor d) ?np = AList.update ''cursor'' (page_cursor d) ?np"
    using c by (simp add: next_params_def)
  show ?case
    unfolding step ih np next_request_update
    by (simp add: next_request_def)
qed

lemma get_markets_loop_start:
  "get_markets w limit status series_ticker s =
   get_markets_loop w limit (first_params limit status series_ticker) [] JNull s"
  by (simp add: get_markets_def first_params_def Let_def)

lemma next_params_JNull: "next_params JNull ps = ps"
  by (simp add: next_params_def)

text \<open>
  Claim C1. Let the server answer the requests of \<open>get_markets\<close> with the pages
  \<open>pages\<close>, one per request, where every page but the last carries a cursor (a truthy
  \<open>cursor\<close> entry) together with at least \<open>limit\<close> items, and the last page has no
  cursor (absent, null or empty) or fewer than \<open>limit\<close> items. Then \<open>get_markets\<close>
  returns the items of all the pages, concatenated in order; it sends exactly one request
  per page and none after the last one, the first without a cursor and each later one
  with the cursor of the page before it.
\<close>

theorem get_markets_concatenates_pages:
  assumes "pages \<noteq> []"
    and "\<forall>i<length pages. \<exists>st. w (length (sent s) + i) = Response st (Inr (pages ! i)) \<and> raise_for_status st = None"
    and "\<forall>d\<in>set pages. is_page d"
    and "\<forall>d\<in>set (butlast pages). more_pages limit d"
    and "\<not> more_pages limit (last pages)"
  shows "get_markets w limit status series_ticker s =
     Some (Inr (concat (map page_items pages)),
           s\<lparr>sent := sent s @ (''/markets'', Some (first_params limit status series_ticker)) #
                        map (next_request (first_params limit status series_ticker)) (butlast pages)\<rparr>)"
  using loop_all_pages [OF assms, of "first_params limit status series_ticker" "[]" JNull]
  by (simp add: get_markets_loop_start next_params_JNull)

theorem get_markets_concatenates_pages_witness:
  "get_markets two_pages 2 ''open'' JNull start =
     Some (Inr [market ''A'' 63, market ''B'' 40, market ''C'' 10],
           \<lparr>sent = [(''/markets'', Some [(''limit'', JInt 2), (''status'', JStr ''open'')]),
                     (''/markets'', Some [(''limit'', JInt 2), (''status'', JStr ''open''),
                                          (''cursor'', JStr ''c1'')])],
              printed = []\<rparr>)"
proof -
  have 1: "[page_one, page_two] \<noteq> []" by simp
  have 2: "\<forall>i<length [page_one, page_two]. \<exists>st.
             two_pages (length (sent start) + i) = Response st (Inr ([page_one, page_two] ! i)) \<and>
             raise_for_status st = None"
    by (simp add: two_pages_def start_def raise_for_status_def less_Suc_eq)
  have 3: "\<forall>d\<in>set [page_one, page_two]. is_page d"
    by (simp add: is_page_def page_one_def page_two_def)
  have 4: "\<forall>d\<in>set (butlast [page_one, page_two]). more_pages 2 d"
    by (simp add: more_pages_def page_one_def page_cursor_def page_items_def)
  have 5: "\<not> more_pages 2 (last [page_one, page_two])"
    by (simp add: more_pages_def page_two_def page_cursor_def page_items_def)
  show ?thesis
    using get_markets_concatenates_pages [OF 1 2 3 4 5, of "''open''" JNull]
    by (simp add: start_def first_params_def next_request_def page_items_def page_cursor_def
        page_one_def page_two_def)
qed

text \<open>
  Claim C8. Let the first \<open>k\<close> requests of \<open>get_markets\<close> be answered with pages
  that each carry a cursor and at least \<open>limit\<close> items, and let the next request fail
  with a RequestException (so that \<open>get\<close> returns \<open>None\<close>). Then \<open>get_markets\<close>
  returns normally, with the items of those \<open>k\<close> pages in order (the empty list when
  \<open>k = 0\<close>); the error is printed once.
\<close>

theorem get_markets_keeps_partial_results:
  assumes "\<forall>i<length pages. \<exists>st. w (length (sent s) + i) = Response st (Inr (pages ! i)) \<and> raise_for_status st = None"
    and "\<forall>d\<in>set pages. is_page d \<and> more_pages limit d"
    and "failure (w (length (sent s) + length pages)) = Some e"
    and "is_RequestException e"
  shows "get_markets w limit status series_ticker s =
     Some (Inr (concat (map page_items pages)),
           s\<lparr>sent := sent s @ (''/markets'', Some (first_params limit status series_ticker)) #
                        map (next_request (first_params limit status series_ticker)) pages,
             printed := printed s @ [API_Error e]\<rparr>)"
  using loop_pages_then_failure [OF assms, of "first_params limit status series_ticker" "[]" JNull]
  by (simp add: get_markets_loop_start next_params_JNull)

theorem get_markets_keeps_partial_results_witness:
  "get_markets page_then_timeout 2 ''open'' JNull start =
     Some (Inr [market ''A'' 63, market ''B'' 40],
           \<lparr>sent = [(''/markets'', Some [(''limit'', JInt 2), (''status'', JStr ''open'')]),
                     (''/markets'', Some [(''limit'', JInt 2), (''status'', JStr ''open''),
                                          (''cursor'', JStr ''c1'')])],
              printed = [API_Error (RequestException ''timed out'')]\<rparr>)"
proof -
  have 1: "\<forall>i<length [page_one]. \<exists>st.
             page_then_timeout (length (sent start) + i) = Response st (Inr ([page_one] ! i)) \<and>
             raise_for_status st = None"
    by (simp add: page_then_timeout_def start_def raise_for_status_def)
  have 2: "\<forall>d\<in>set [page_one]. is_page d \<and> more_pages 2 d"
    by (simp add: is_page_def more_pages_def page_one_def page_cursor_def page_items_def)
  have 3: "failure (page_then_timeout (length (sent start) + length [page_one])) =
             Some (RequestException ''timed out'')"
    by (simp add: failure_def page_then_timeout_def start_def)
  have 4: "is_RequestException (RequestException ''timed out'')" by simp
  show ?thesis
    using get_markets_keeps_partial_results [OF 1 2 3 4, of "''open''" JNull]
    by (simp add: start_def first_params_def next_request_def page_items_def page_cursor_def
        page_one_def)
qed

subsection \<open>The orderbook\<close>

text \<open>
  Claim C6. \<open>get_orderbook\<close> sends the caller's depth as the query parameter
  \<open>depth\<close>, and returns the \<open>orderbook\<close> entry of the response as it is, whatever
  the number of levels in it.
\<close>

theorem get_orderbook_passthrough:
  assumes "w (length (sent s)) = Response status (Inr (JObj kvs))"
      and "raise_for_status status = None"
      and "map_of kvs ''orderbook'' = Some ob"
  shows "get_orderbook w ticker depth s =
           (Inr ob, s\<lparr>sent := sent s @ [(''/markets/'' @ ticker @ ''/orderbook'', Some [(''depth'', JInt depth)])]\<rparr>)"
proof -
  from assms(3) have "kvs \<noteq> []" by auto
  with assms show ?thesis
    by (simp add: get_orderbook_def get_success)
qed

theorem get_orderbook_passthrough_witness:
  "get_orderbook (\<lambda>n. Response 200 (Inr (JObj [(''orderbook'', book5)]))) ''ABC'' 3 \<lparr>sent = [], printed = []\<rparr> =
     (Inr book5, \<lparr>sent = [(''/markets/ABC/orderbook'', Some [(''depth'', JInt 3)])], printed = []\<rparr>)"
  using get_orderbook_passthrough [of "\<lambda>n. Response 200 (Inr (JObj [(''orderbook'', book5)]))" "\<lparr>sent = [], printed = []\<rparr>" 200
      "[(''orderbook'', book5)]" book5 "''ABC''" 3]
  by (simp add: raise_for_status_def)

section \<open>Properties of the dashboard client\<close>

declare safe_request.simps [simp del]

lemma safe_request_unfold:
  "safe_request w endpoint ps depth s =
     (if rate_limited (result (w (pos s)))
      then (case depth of
              0 \<Rightarrow> (JNull, st_error RecursionError (back_off w endpoint ps s))
            | Suc d \<Rightarrow> safe_request w endpoint ps d (back_off w endpoint ps s))
      else finish w endpoint ps s)"
  apply (subst safe_request.simps)
  apply (simp add: rate_limited_def back_off_def finish_def pace_def Let_def session_get_def
      split: outcome.splits option.splits sum.splits nat.splits)
  done

lemma safe_request_induct [consumes 1, case_names finish overflow back_off]:
  assumes run: "safe_request w endpoint ps depth s = y"
    and fin: "\<And>depth s. \<not> rate_limited (result (w (pos s))) \<Longrightarrow> P depth s (finish w endpoint ps s)"
    and ovf: "\<And>s. rate_limited (result (w (pos s))) \<Longrightarrow>
               P 0 s (JNull, st_error RecursionError (back_off w endpoint ps s))"
    and again: "\<And>d s y. rate_limited (result (w (pos s))) \<Longrightarrow>
               P d (back_off w endpoint ps s) y \<Longrightarrow> P (Suc d) s y"
  shows "P depth s y"
proof -
  have "P depth s (safe_request w endpoint ps depth s)"
  proof (induction depth arbitrary: s)
    case 0
    show ?case
      by (cases "rate_limited (result (w (pos s)))")
        (simp_all add: safe_request_unfold [of w endpoint ps 0 s] fin ovf)
  next
    case (Suc d)
    show ?case
    proof (cases "rate_limited (result (w (pos s)))")
      case True
      have "P d (back_off w endpoint ps s) (safe_request w endpoint ps d (back_off w endpoint ps s))"
        by (rule Suc.IH)
      with True have "P (Suc d) s (safe_request w endpoint ps d (back_off w endpoint ps s))"
        by (rule again)
      then show ?thesis using True by (simp add: safe_request_unfold [of w endpoint ps "Suc d" s])
    next
      case False
      then show ?thesis by (simp add: safe_request_unfold [of w endpoint ps "Suc d" s] fin)
    qed
  qed
  then show ?thesis using run by simp
qed

lemma pace_fields [simp]:
  "pos (pace w s) = pos s" "last_request (pace w s) = last_request s"
  by (simp_all add: pace_def sleep_def)

lemma trace_pace:
  "trace (pace w s) = trace s @
     (if now s - last_request s < 0.5 then [Sleep (0.5 - (now s - last_request s))] else [])"
  by (simp add: pace_def sleep_def)

lemma now_pace: "0 \<le> pace_lag (w (pos s)) \<Longrightarrow> last_request s + 0.5 \<le> now (pace w s)"
  by (simp add: pace_def sleep_def)

lemma back_off_fields [simp]:
  "pos (back_off w endpoint ps s) = Suc (pos s)"
  "last_request (back_off w endpoint ps s) = last_request s"
  by (simp_all add: back_off_def sleep_def st_warning_def session_get_def)

lemma trace_back_off:
  "trace (back_off w endpoint ps s) =
     trace (pace w s) @ [Http_Get (now (pace w s)) endpoint ps, St_Warning, Sleep 3]"
  by (simp add: back_off_def sleep_def st_warning_def session_get_def)

lemma st_error_fields [simp]:
  "pos (st_error e s) = pos s" "last_request (st_error e s) = last_request s"
  "now (st_error e s) = now s" "trace (st_error e s) = trace s @ [St_Error e]"
  by (simp_all add: st_error_def)

lemma pos_finish [simp]: "pos (snd (finish w endpoint ps s)) = Suc (pos s)"
  by (simp add: finish_def Let_def session_get_def st_error_def
      split: outcome.splits option.splits sum.splits)

lemma trace_finish_failure:
  "trace (snd (finish w endpoint ps s)) =
     trace (pace w s) @ Http_Get (now (pace w s)) endpoint ps #
       (case failure (result (w (pos s))) of Some e \<Rightarrow> [St_Error e] | None \<Rightarrow> [])"
  by (simp add: finish_def Let_def session_get_def st_error_def failure_def
      split: outcome.splits option.splits sum.splits)

lemma fst_finish:
  "fst (finish w endpoint ps s) =
     (if failure (result (w (pos s))) = None then decoded (result (w (pos s))) else JNull)"
  by (simp add: finish_def Let_def failure_def decoded_def
      split: outcome.splits option.splits sum.splits)

lemma last_request_finish:
  "last_request (snd (finish w endpoint ps s)) =
     (if http_failed (result (w (pos s))) then last_request s else now (snd (finish w endpoint ps s)))"
  by (simp add: finish_def Let_def http_failed_def session_get_def st_error_def
      split: outcome.splits option.splits sum.splits)

lemma rate_limited_failed:
  assumes "rate_limited x"
  shows "http_failed x" and "failure x \<noteq> None"
  using assms
  by (auto simp: rate_limited_def http_failed_def failure_def raise_for_status_def
      split: outcome.splits)

lemma safe_request_span:
  assumes "safe_request w endpoint ps depth s = y"
  shows "pos s < pos (snd y) \<and> pos (snd y) \<le> pos s + Suc depth \<and>
         (\<forall>n. pos s \<le> n \<and> n < pos (snd y) - 1 \<longrightarrow> rate_limited (result (w n))) \<and>
         (rate_limited (result (w (pos (snd y) - 1))) \<longrightarrow> pos (snd y) = pos s + Suc depth)"
  using assms
proof (induction rule: safe_request_induct)
  case (finish depth s)
  then show ?case by auto
next
  case (overflow s)
  then show ?case by auto
next
  case (back_off d s y)
  then have lt: "Suc (pos s) < pos (snd y)"
    and le: "pos (snd y) \<le> Suc (pos s) + Suc d"
    and mid: "\<forall>n. Suc (pos s) \<le> n \<and> n < pos (snd y) - 1 \<longrightarrow> rate_limited (result (w n))"
    and lst: "rate_limited (result (w (pos (snd y) - 1))) \<longrightarrow> pos (snd y) = Suc (pos s) + Suc d"
    by simp_all
  have "rate_limited (result (w n))" if "pos s \<le> n" "n < pos (snd y) - 1" for n
  proof (cases "n = pos s")
    case True
    then show ?thesis using back_off(1) by simp
  next
    case False
    then have "Suc (pos s) \<le> n" using that(1) by simp
    then show ?thesis using mid that(2) by blast
  qed
  then show ?case using lt le lst by auto
qed

lemma safe_request_value:
  assumes "safe_request w endpoint ps depth s = y"
  shows "fst y = (if failure (result (w (pos (snd y) - 1))) = None
                  then decoded (result (w (pos (snd y) - 1))) else JNull)"
  using assms
proof (induction rule: safe_request_induct)
  case (finish depth s)
  then show ?case by (simp add: fst_finish)
next
  case (overflow s)
  then show ?case by (simp add: rate_limited_failed)
next
  case (back_off d s y)
  then show ?case by simp
qed

lemma safe_request_last_request:
  assumes "safe_request w endpoint ps depth s = y"
  shows "last_request (snd y) =
           (if http_failed (result (w (pos (snd y) - 1))) then last_request s else now (snd y))"
  using assms
proof (induction rule: safe_request_induct)
  case (finish depth s)
  then show ?case using last_request_finish [of w endpoint ps s] by simp
next
  case (overflow s)
  then show ?case by (simp add: rate_limited_failed)
next
  case (back_off d s y)
  then show ?case by simp
qed

lemma projections_append [simp]:
  "requests_of (xs @ ys) = requests_of xs @ requests_of ys"
  "dispatch_times (xs @ ys) = dispatch_times xs @ dispatch_times ys"
  "errors_of (xs @ ys) = errors_of xs @ errors_of ys"
  "warnings_of (xs @ ys) = warnings_of xs + warnings_of ys"
  by (simp_all add: requests_of_def dispatch_times_def errors_of_def warnings_of_def)

lemma projections_simps [simp]:
  "requests_of [] = []" "requests_of (Sleep d # evs) = requests_of evs"
  "requests_of (Http_Get t e p # evs) = (e, p) # requests_of evs"
  "requests_of (St_Warning # evs) = requests_of evs" "requests_of (St_Error x # evs) = requests_of evs"
  "dispatch_times [] = []" "dispatch_times (Sleep d # evs) = dispatch_times evs"
  "dispatch_times (Http_Get t e p # evs) = t # dispatch_times evs"
  "dispatch_times (St_Warning # evs) = dispatch_times evs" "dispatch_times (St_Error x # evs) = dispatch_times evs"
  "errors_of [] = []" "errors_of (Sleep d # evs) = errors_of evs"
  "errors_of (Http_Get t e p # evs) = errors_of evs"
  "errors_of (St_Warning # evs) = errors_of evs" "errors_of (St_Error x # evs) = x # errors_of evs"
  "warnings_of [] = 0" "warnings_of (Sleep d # evs) = warnings_of evs"
  "warnings_of (Http_Get t e p # evs) = warnings_of evs"
  "warnings_of (St_Warning # evs) = Suc (warnings_of evs)" "warnings_of (St_Error x # evs) = warnings_of evs"
  by (simp_all add: requests_of_def dispatch_times_def errors_of_def warnings_of_def)

lemma backed_off_block [simp]:
  "backed_off (Sleep d # evs) = backed_off evs"
  "backed_off (Http_Get t e p # St_Warning # Sleep 3 # evs) = backed_off evs"
  by simp_all

lemma safe_request_trace:
  assumes "safe_request w endpoint ps depth s = y"
  shows "pos s < pos (snd y) \<and>
         (\<exists>evs. trace (snd y) = trace s @ evs \<and>
           requests_of evs = replicate (pos (snd y) - pos s) (endpoint, ps) \<and>
           warnings_of evs =
             (if rate_limited (result (w (pos (snd y) - 1)))
              then pos (snd y) - pos s else pos (snd y) - Suc (pos s)) \<and>
           backed_off evs \<and>
           errors_of evs =
             (if rate_limited (result (w (pos (snd y) - 1))) then [RecursionError]
              else (case failure (result (w (pos (snd y) - 1))) of Some e \<Rightarrow> [e] | None \<Rightarrow> [])))"
  using assms
proof (induction rule: safe_request_induct)
  case (finish depth s)
  then show ?case
    by (simp add: trace_finish_failure trace_pace split: option.splits)
next
  case (overflow s)
  then show ?case
    by (simp add: trace_back_off trace_pace)
next
  case (back_off d s y)
  let ?last = "result (w (pos (snd y) - 1))"
  from back_off obtain evs where lt: "Suc (pos s) < pos (snd y)"
    and evs: "trace (snd y) = trace (back_off w endpoint ps s) @ evs"
      "requests_of evs = replicate (pos (snd y) - Suc (pos s)) (endpoint, ps)"
      "warnings_of evs =
         (if rate_limited ?last then pos (snd y) - Suc (pos s) else pos (snd y) - Suc (Suc (pos s)))"
      "backed_off evs"
      "errors_of evs =
         (if rate_limited ?last then [RecursionError]
          else (case failure ?last of Some e \<Rightarrow> [e] | None \<Rightarrow> []))"
    by auto
  let ?pre = "if now s - last_request s < 0.5 then [Sleep (0.5 - (now s - last_request s))] else []"
  let ?evs = "?pre @ Http_Get (now (pace w s)) endpoint ps # St_Warning # Sleep 3 # evs"
  have tr: "trace (snd y) = trace s @ ?evs"
    by (simp add: evs(1) trace_back_off trace_pace)
  have rq: "requests_of ?evs = replicate (pos (snd y) - pos s) (endpoint, ps)"
  proof -
    have "pos (snd y) - pos s = Suc (pos (snd y) - Suc (pos s))" using lt by simp
    then show ?thesis by (simp add: evs(2))
  qed
  have wn: "warnings_of ?evs =
      (if rate_limited ?last then pos (snd y) - pos s else pos (snd y) - Suc (pos s))"
    using lt by (auto simp: evs(3))
  have bo: "backed_off ?evs" using evs(4) by simp
  have er: "errors_of ?evs =
      (if rate_limited ?last then [RecursionError]
       else (case failure ?last of Some e \<Rightarrow> [e] | None \<Rightarrow> []))"
    by (simp add: evs(5))
  have "pos s < pos (snd y)" using lt by simp
  moreover have "\<exists>evs. trace (snd y) = trace s @ evs \<and>
           requests_of evs = replicate (pos (snd y) - pos s) (endpoint, ps) \<and>
           warnings_of evs =
             (if rate_limited ?last then pos (snd y) - pos s else pos (snd y) - Suc (pos s)) \<and>
           backed_off evs \<and>
           errors_of evs =
             (if rate_limited ?last then [RecursionError]
              else (case failure ?last of Some e \<Rightarrow> [e] | None \<Rightarrow> []))"
    using tr rq wn bo er by blast
  ultimately show ?case by blast
qed

lemma safe_request_dispatch:
  assumes "safe_request w endpoint ps depth s = y"
    and "\<forall>n. 0 \<le> pace_lag (w n)"
  shows "\<exists>evs. trace (snd y) = trace s @ evs \<and>
           dispatch_times evs \<noteq> [] \<and>
           (\<forall>t\<in>set (dispatch_times evs). last_request s + 0.5 \<le> t) \<and>
           (now s - last_request s < 0.5 \<longrightarrow> take 1 evs = [Sleep (0.5 - (now s - last_request s))])"
  using assms
proof (induction rule: safe_request_induct)
  case (finish depth s)
  have "last_request s + 0.5 \<le> now (pace w s)"
    by (rule now_pace) (use finish(2) in blast)
  then show ?case
    by (simp add: trace_finish_failure trace_pace split: option.splits)
next
  case (overflow s)
  have "last_request s + 0.5 \<le> now (pace w s)"
    by (rule now_pace) (use overflow(2) in blast)
  then show ?case
    by (simp add: trace_back_off trace_pace)
next
  case (back_off d s y)
  then obtain evs where evs: "trace (snd y) = trace (back_off w endpoint ps s) @ evs"
      "\<forall>t\<in>set (dispatch_times evs). last_request s + 0.5 \<le> t"
    by auto
  have np: "last_request s + 0.5 \<le> now (pace w s)"
    by (rule now_pace) (use back_off(3) in blast)
  let ?pre = "if now s - last_request s < 0.5 then [Sleep (0.5 - (now s - last_request s))] else []"
  let ?evs = "?pre @ Http_Get (now (pace w s)) endpoint ps # St_Warning # Sleep 3 # evs"
  have tr: "trace (snd y) = trace s @ ?evs"
    by (simp add: evs(1) trace_back_off trace_pace)
  have "dispatch_times ?evs \<noteq> []" by simp
  moreover have "\<forall>t\<in>set (dispatch_times ?evs). last_request s + 0.5 \<le> t"
    using evs(2) np by simp
  moreover have "now s - last_request s < 0.5 \<longrightarrow> take 1 ?evs = [Sleep (0.5 - (now s - last_request s))]"
    by simp
  ultimately show ?case using tr by (intro exI[of _ ?evs]) simp
qed

lemma safe_request_ends:
  assumes "\<forall>i<k. rate_limited (result (w (pos s + i)))"
    and "\<not> rate_limited (result (w (pos s + k)))"
    and "k \<le> depth"
  shows "pos (snd (safe_request w endpoint ps depth s)) = pos s + Suc k"
  using assms
proof (induction k arbitrary: s depth)
  case 0
  then show ?case by (simp add: safe_request_unfold [of w endpoint ps depth s])
next
  case (Suc k)
  have first: "rate_limited (result (w (pos s)))" using Suc.prems(1) by force
  obtain d where d: "depth = Suc d" "k \<le> d" using Suc.prems(3) by (cases depth) auto
  have "pos (snd (safe_request w endpoint ps d (back_off w endpoint ps s))) =
          pos (back_off w endpoint ps s) + Suc k"
  proof (rule Suc.IH)
    show "\<forall>i<k. rate_limited (result (w (pos (back_off w endpoint ps s) + i)))"
      using Suc.prems(1) by auto
    show "\<not> rate_limited (result (w (pos (back_off w endpoint ps s) + k)))"
      using Suc.prems(2) by simp
    show "k \<le> d" by (rule d(2))
  qed
  then show ?case using first unfolding d(1)
    by (simp add: safe_request_unfold [of w endpoint ps "Suc d" s])
qed


lemmas step_defs = rate_limited_def back_off_def finish_def pace_def sleep_def st_warning_def
  st_error_def session_get_def raise_for_status_def Let_def

subsection \<open>Retries on status 429\<close>







subsection \<open>Pacing\<close>

text \<open>
  Claim C3, as stated, fails: two requests in a row can be dispatched less than 0.5
  seconds apart with no sleep between them. \<open>last_request\<close> is written only after a
  successful response, so after a request that failed (here with status 503, answered
  within 0.01 seconds) the next call finds the old \<open>last_request\<close>, does not sleep and
  dispatches at once: the two dispatches are at 1000 and 1000.01.
\<close>

theorem unpaced_after_failure_counterexample:
  "safe_request failing_fast ''/markets'' None 5 (init 1000 0) = (JNull, failed_once) \<and>
   safe_request failing_fast ''/markets'' None 5 failed_once = (JNull, failed_twice) \<and>
   dispatch_times (trace failed_twice) = [1000, 1000.01] \<and>
   \<not> (1000 + 0.5 \<le> (1000.01::real))"
  by (simp add: safe_request_unfold failing_fast_def failed_once_def failed_twice_def
      init_def step_defs)

text \<open>
  Claim C3, amended. Pacing is measured from the recorded \<open>last_request\<close> time, which is
  the arrival of the last successful response. Let no pacing sleep end early. In every
  call of \<open>safe_request\<close> each request is dispatched at least 0.5 seconds after the
  recorded \<open>last_request\<close> time, and when the call starts less than 0.5 seconds after that
  time, the first thing it does is sleep for the remaining interval. So of two calls in
  a row, when the first ended with a successful response and the second starts \<open>gap\<close>
  seconds later, the second dispatches at least 0.5 seconds after that response, and for
  a gap below 0.5 seconds it first sleeps for the rest of the interval. A request that
  follows a failed one is paced against the last successful response only, not against
  the failed request.
\<close>

theorem safe_request_paced:
  assumes "\<forall>n. 0 \<le> pace_lag (w n)"
  shows "(\<exists>evs. trace (snd (safe_request w endpoint ps depth s)) = trace s @ evs \<and>
            dispatch_times evs \<noteq> [] \<and>
            (\<forall>t\<in>set (dispatch_times evs). last_request s + 0.5 \<le> t) \<and>
            (now s - last_request s < 0.5 \<longrightarrow>
               take 1 evs = [Sleep (0.5 - (now s - last_request s))])) \<and>
         (let s1 = snd (safe_request w endpoint ps depth s);
              s2 = snd (safe_request w endpoint' ps' depth' (s1\<lparr>now := now s1 + gap\<rparr>))
          in \<not> http_failed (result (w (pos s1 - 1))) \<longrightarrow>
               (\<exists>evs. trace s2 = trace s1 @ evs \<and>
                  dispatch_times evs \<noteq> [] \<and>
                  (\<forall>t\<in>set (dispatch_times evs). now s1 + 0.5 \<le> t) \<and>
                  (gap < 0.5 \<longrightarrow> take 1 evs = [Sleep (0.5 - gap)])))"
proof (intro conjI)
  show "\<exists>evs. trace (snd (safe_request w endpoint ps depth s)) = trace s @ evs \<and>
            dispatch_times evs \<noteq> [] \<and>
            (\<forall>t\<in>set (dispatch_times evs). last_request s + 0.5 \<le> t) \<and>
            (now s - last_request s < 0.5 \<longrightarrow>
               take 1 evs = [Sleep (0.5 - (now s - last_request s))])"
    using safe_request_dispatch [OF refl assms] .
next
  define s1 where "s1 = snd (safe_request w endpoint ps depth s)"
  define s2 where "s2 = snd (safe_request w endpoint' ps' depth' (s1\<lparr>now := now s1 + gap\<rparr>))"
  have "\<exists>evs. trace s2 = trace s1 @ evs \<and> dispatch_times evs \<noteq> [] \<and>
           (\<forall>t\<in>set (dispatch_times evs). now s1 + 0.5 \<le> t) \<and>
           (gap < 0.5 \<longrightarrow> take 1 evs = [Sleep (0.5 - gap)])"
    if ok: "\<not> http_failed (result (w (pos s1 - 1)))"
  proof -
    have "last_request s1 = now s1"
      using safe_request_last_request [OF refl, where w = w and endpoint = endpoint
          and ps = ps and depth = depth and s = s] ok
      by (simp add: s1_def)
    then show ?thesis
      using safe_request_dispatch [OF refl assms, where endpoint = endpoint' and ps = ps'
          and depth = depth' and s = "s1\<lparr>now := now s1 + gap\<rparr>"]
      by (simp add: s2_def)
  qed
  then show "let s1 = snd (safe_request w endpoint ps depth s);
              s2 = snd (safe_request w endpoint' ps' depth' (s1\<lparr>now := now s1 + gap\<rparr>))
          in \<not> http_failed (result (w (pos s1 - 1))) \<longrightarrow>
               (\<exists>evs. trace s2 = trace s1 @ evs \<and>
                  dispatch_times evs \<noteq> [] \<and>
                  (\<forall>t\<in>set (dispatch_times evs). now s1 + 0.5 \<le> t) \<and>
                  (gap < 0.5 \<longrightarrow> take 1 evs = [Sleep (0.5 - gap)]))"
    by (simp add: s1_def s2_def Let_def)
qed

lemma just_served_run:
  "safe_request always_ok ''/markets'' None 5 just_served = (ok_body, just_served_end)"
  by (simp add: safe_request_unfold always_ok_def exchange_of_def just_served_def
      just_served_end_def step_defs)

theorem safe_request_paced_witness:
  "(\<exists>evs. trace (snd (safe_request always_ok ''/markets'' None 5 just_served)) =
            trace just_served @ evs \<and>
          dispatch_times evs \<noteq> [] \<and>
          (\<forall>t\<in>set (dispatch_times evs). last_request just_served + 0.5 \<le> t) \<and>
          take 1 evs = [Sleep (0.5 - (now just_served - last_request just_served))]) \<and>
   (\<exists>evs. trace (snd (safe_request always_ok ''/markets/trades'' None 5
                       (just_served_end\<lparr>now := now just_served_end + 0.2\<rparr>))) =
            trace just_served_end @ evs \<and>
          dispatch_times evs \<noteq> [] \<and>
          (\<forall>t\<in>set (dispatch_times evs). now just_served_end + 0.5 \<le> t) \<and>
          take 1 evs = [Sleep (0.5 - 0.2)])"
proof -
  have lag: "\<forall>n. 0 \<le> pace_lag (always_ok n)"
    by (simp add: always_ok_def exchange_of_def)
  have early: "now just_served - last_request just_served < 0.5"
    by (simp add: just_served_def)
  have ok: "\<not> http_failed (result (always_ok (pos just_served_end - 1)))"
    by (simp add: always_ok_def exchange_of_def http_failed_def raise_for_status_def)
  have gap: "(0.2::real) < 0.5" by simp
  show ?thesis
    using safe_request_paced [OF lag, where endpoint = "''/markets''" and ps = None
        and depth = 5 and s = just_served and endpoint' = "''/markets/trades''" and ps' = None
        and depth' = 5 and gap = "0.2"] early ok gap
    by (simp add: just_served_run Let_def)
qed

text \<open>
  Claim C10. In a call of \<open>safe_request\<close> every exchange but the last had status 429
  (and the last one has it only when the nested calls are used up), and backing off
  after a 429 leaves \<open>last_request\<close> as it was. If the last exchange failed with a
  transport error or an HTTP error status, \<open>last_request\<close> is the same after the call as
  before it; otherwise it is the clock at the moment the response was received.
\<close>

theorem last_request_set_on_success_only:
  assumes "safe_request w endpoint ps depth s = (r, s')"
  shows "pos s < pos s' \<and>
         (\<forall>n. pos s \<le> n \<and> n < pos s' - 1 \<longrightarrow> rate_limited (result (w n))) \<and>
         (rate_limited (result (w (pos s' - 1))) \<longrightarrow> pos s' = pos s + Suc depth) \<and>
         (http_failed (result (w (pos s' - 1))) \<longrightarrow> last_request s' = last_request s) \<and>
         (\<not> http_failed (result (w (pos s' - 1))) \<longrightarrow> last_request s' = now s') \<and>
         last_request (back_off w endpoint ps s) = last_request s"
  using safe_request_span [OF assms] safe_request_last_request [OF assms] by simp

lemma limited_then_down_run:
  "safe_request limited_then_down ''/markets'' None 5 (init 10 0) = (JNull, limited_then_down_end)"
  by (simp add: safe_request_unfold limited_then_down_def exchange_of_def init_def
      limited_then_down_end_def step_defs)

theorem last_request_set_on_success_only_witness:
  "http_failed (result (limited_then_down (pos limited_then_down_end - 1))) \<and>
   last_request limited_then_down_end = last_request (init 10 0)"
  using last_request_set_on_success_only [OF limited_then_down_run]
  by (simp add: limited_then_down_def exchange_of_def limited_then_down_end_def
      http_failed_def raise_for_status_def)

subsection \<open>Page sizes\<close>

lemma safe_request_requests:
  "\<exists>evs. trace (snd (safe_request w endpoint ps depth s)) = trace s @ evs \<and>
         requests_of evs \<noteq> [] \<and> set (requests_of evs) = {(endpoint, ps)}"
proof -
  obtain evs where "pos s < pos (snd (safe_request w endpoint ps depth s))"
      "trace (snd (safe_request w endpoint ps depth s)) = trace s @ evs"
      "requests_of evs =
         replicate (pos (snd (safe_request w endpoint ps depth s)) - pos s) (endpoint, ps)"
    using safe_request_trace [OF refl, where w = w and endpoint = endpoint and ps = ps
        and depth = depth and s = s] by auto
  then show ?thesis by (intro exI[of _ evs]) auto
qed

text \<open>
  Claim C9. The dashboard's \<open>get_markets\<close> dispatches at least one request, and every
  request it dispatches carries the query parameter \<open>limit = min(limit, 100)\<close>, which is
  at most 100 whatever the caller asked for; its \<open>get_trades\<close> does the same with
  \<open>min(limit, 50)\<close>, at most 50.
\<close>

theorem dashboard_clamps_page_sizes:
  "(\<exists>evs n. trace (snd (simple_get_markets w limit depth s)) = trace s @ evs \<and>
      requests_of evs \<noteq> [] \<and> n = min limit 100 \<and> n \<le> 100 \<and>
      set (requests_of evs) =
        {(''/markets'', Some [(''limit'', JInt n), (''status'', JStr ''open'')])}) \<and>
   (\<exists>evs n. trace (snd (simple_get_trades w limit depth s)) = trace s @ evs \<and>
      requests_of evs \<noteq> [] \<and> n = min limit 50 \<and> n \<le> 50 \<and>
      set (requests_of evs) = {(''/markets/trades'', Some [(''limit'', JInt n)])})"
proof (intro conjI)
  let ?ps = "Some [(''limit'', JInt (min limit 100)), (''status'', JStr ''open'')]"
  have "snd (simple_get_markets w limit depth s) = snd (safe_request w ''/markets'' ?ps depth s)"
    by (simp add: simple_get_markets_def Let_def split: prod.splits)
  then show "\<exists>evs n. trace (snd (simple_get_markets w limit depth s)) = trace s @ evs \<and>
      requests_of evs \<noteq> [] \<and> n = min limit 100 \<and> n \<le> 100 \<and>
      set (requests_of evs) =
        {(''/markets'', Some [(''limit'', JInt n), (''status'', JStr ''open'')])}"
    using safe_request_requests [of w "''/markets''" ?ps depth s] by auto
next
  let ?ps = "Some [(''limit'', JInt (min limit 50))]"
  have "snd (simple_get_trades w limit depth s) = snd (safe_request w ''/markets/trades'' ?ps depth s)"
    by (simp add: simple_get_trades_def Let_def split: prod.splits)
  then show "\<exists>evs n. trace (snd (simple_get_trades w limit depth s)) = trace s @ evs \<and>
      requests_of evs \<noteq> [] \<and> n = min limit 50 \<and> n \<le> 50 \<and>
      set (requests_of evs) = {(''/markets/trades'', Some [(''limit'', JInt n)])}"
    using safe_request_requests [of w "''/markets/trades''" ?ps depth s] by auto
qed

lemma asked_500_run:
  "simple_get_markets always_ok 500 5 (init 10 0) = (Inr (JArr [market ''ABC'' 63]), asked_500_end)"
  by (simp add: simple_get_markets_def safe_request_unfold always_ok_def exchange_of_def init_def
      asked_500_end_def ok_body_def step_defs)

lemma trades_500_run:
  "simple_get_trades always_ok 500 5 (init 10 0) = (Inr (JArr []), trades_500_end)"
  by (simp add: simple_get_trades_def safe_request_unfold always_ok_def exchange_of_def init_def
      trades_500_end_def ok_body_def step_defs)

theorem dashboard_clamps_page_sizes_witness:
  "simple_get_markets always_ok 500 5 (init 10 0) =
     (Inr (JArr [market ''ABC'' 63]), asked_500_end) \<and>
   (\<exists>evs. trace asked_500_end = trace (init 10 0) @ evs \<and> requests_of evs \<noteq> [] \<and>
      set (requests_of evs) =
        {(''/markets'', Some [(''limit'', JInt 100), (''status'', JStr ''open'')])}) \<and>
   simple_get_trades always_ok 500 5 (init 10 0) = (Inr (JArr []), trades_500_end) \<and>
   (\<exists>evs. trace trades_500_end = trace (init 10 0) @ evs \<and> requests_of evs \<noteq> [] \<and>
      set (requests_of evs) = {(''/markets/trades'', Some [(''limit'', JInt 50)])})"
  using dashboard_clamps_page_sizes [of always_ok 500 5 "init 10 0"]
  by (simp add: asked_500_run trades_500_run)

section \<open>Start-up without an API key\<close>

text \<open>
  Claim C7. When \<open>KALSHI_API_KEY\<close> is absent (or empty), \<open>main\<close> prints the
  welcome banner and the message asking for the key and returns; it sends no request,
  so none of the four demos is attempted.
\<close>

theorem main_without_key:
  assumes "\<not> key_loaded api_key"
  shows "main P w api_key s = Some (s\<lparr>printed := printed s @ [Welcome False, Missing_Key_Help]\<rparr>)"
  using assms by (simp add: main_def display_welcome_def Let_def)

theorem main_without_key_witness:
  "main plain two_pages None start = Some \<lparr>sent = [], printed = [Welcome False, Missing_Key_Help]\<rparr>"
  using main_without_key [of None plain two_pages start]
  by (simp add: key_loaded_def start_def)

section \<open>Transport and HTTP errors stay inside the clients\<close>

lemma get_caught:
  assumes "failure (w (length (sent s))) = Some e" "is_RequestException e"
  shows "get w endpoint ps s =
           (Inr JNull, s\<lparr>sent := sent s @ [(endpoint, ps)], printed := printed s @ [API_Error e]\<rparr>)"
  using assms
  by (auto simp: get_def failure_def handle_request_exception_def
      split: outcome.splits option.splits sum.splits)

lemma get_raises:
  "fst (get w endpoint ps s) = Inl x \<Longrightarrow> \<not> is_RequestException x"
  by (auto simp: get_def handle_request_exception_def Let_def
      split: outcome.splits option.splits sum.splits if_splits)

lemma dict_get_raises: "dict_get d k v = Inl x \<Longrightarrow> \<not> is_RequestException x"
  by (cases d) auto

lemma py_iter_raises: "py_iter m = Inl x \<Longrightarrow> \<not> is_RequestException x"
  by (cases m) auto

lemma get_markets_loop_raises:
  assumes "get_markets_loop w limit ps acc cur s = Some y"
  shows "\<forall>x. fst y = Inl x \<longrightarrow> \<not> is_RequestException x"
proof (rule get_markets_loop.raw_induct
    [where P = "\<lambda>w limit ps acc cur s y. \<forall>x. fst y = Inl x \<longrightarrow> \<not> is_RequestException x", OF _ assms])
  fix f w limit ps acc cur s y
  assume ih: "\<And>w limit ps acc cur s y. f w limit ps acc cur s = Some y \<Longrightarrow>
               \<forall>x. fst y = Inl x \<longrightarrow> \<not> is_RequestException x"
    and body: "(let ps1 = (if truthy cur then AList.update ''cursor'' cur ps else ps);
          r = get w ''/markets'' (Some ps1) s
      in case fst r of
           Inl e \<Rightarrow> Some (Inl e, snd r)
         | Inr data \<Rightarrow>
             if \<not> truthy data then Some (Inr acc, snd r)
             else (case dict_get data ''markets'' (JArr []) of
                     Inl e \<Rightarrow> Some (Inl e, snd r)
                   | Inr markets \<Rightarrow>
                       (case py_iter markets of
                          Inl e \<Rightarrow> Some (Inl e, snd r)
                        | Inr items \<Rightarrow>
                            (case dict_get data ''cursor'' JNull of
                               Inl e \<Rightarrow> Some (Inl e, snd r)
                             | Inr cursor1 \<Rightarrow>
                                 if \<not> truthy cursor1 \<or> int (length items) < limit
                                 then Some (Inr (acc @ items), snd r)
                                 else f w limit ps1 (acc @ items) cursor1 (snd r))))) = Some y"
  from body show "\<forall>x. fst y = Inl x \<longrightarrow> \<not> is_RequestException x"
    by (auto simp: Let_def split: sum.splits if_splits
        dest: get_raises dict_get_raises py_iter_raises ih)
qed

lemma get_markets_raises:
  "get_markets w limit status series_ticker s = Some (Inl x, s') \<Longrightarrow> \<not> is_RequestException x"
  using get_markets_loop_raises [of w limit "first_params limit status series_ticker" "[]" JNull s "(Inl x, s')"]
  by (simp add: get_markets_loop_start)

lemma accessors_raise:
  "fst (get_market w ticker s) = Inl x \<Longrightarrow> \<not> is_RequestException x"
  "fst (get_orderbook w ticker depth s) = Inl x \<Longrightarrow> \<not> is_RequestException x"
  "fst (get_trades w tk limit s) = Inl x \<Longrightarrow> \<not> is_RequestException x"
  "fst (get_series w st s) = Inl x \<Longrightarrow> \<not> is_RequestException x"
  by (auto simp: get_market_def get_orderbook_def get_trades_def get_series_def Let_def
      split: sum.splits if_splits dest: get_raises dict_get_raises)

lemma simple_accessors_raise:
  "fst (simple_get_markets v limit depth d) = Inl x \<Longrightarrow> \<not> is_RequestException x"
  "fst (simple_get_orderbook v ticker depth d) = Inl x \<Longrightarrow> \<not> is_RequestException x"
  "fst (simple_get_trades v limit depth d) = Inl x \<Longrightarrow> \<not> is_RequestException x"
  by (auto simp: simple_get_markets_def simple_get_orderbook_def simple_get_trades_def Let_def
      split: prod.splits if_splits dest: dict_get_raises)

lemma safe_request_caught:
  assumes "\<forall>i<k. rate_limited (result (v (pos d + i)))"
    and "k \<le> depth"
    and "\<not> rate_limited (result (v (pos d + k)))"
    and "failure (result (v (pos d + k))) = Some e"
  shows "\<exists>d' evs. safe_request v endpoint ps depth d = (JNull, d') \<and>
           trace d' = trace d @ evs \<and> errors_of evs = [e]"
proof -
  define y where "y = safe_request v endpoint ps depth d"
  have run: "safe_request v endpoint ps depth d = y" by (simp add: y_def)
  have p: "pos (snd y) = pos d + Suc k"
    unfolding y_def using assms(1,3,2) by (rule safe_request_ends)
  then have last: "\<not> rate_limited (result (v (pos (snd y) - 1)))"
    and fail: "failure (result (v (pos (snd y) - 1))) = Some e"
    using assms(3,4) by simp_all
  obtain evs where evs: "trace (snd y) = trace d @ evs" "errors_of evs = [e]"
    using safe_request_trace [OF run] last fail by auto
  have "fst y = JNull" using safe_request_value [OF run] fail by simp
  then have "safe_request v endpoint ps depth d = (JNull, snd y)" using run by (cases y) simp
  then show ?thesis using evs by blast
qed

text \<open>
  Claim C5. A RequestException raised during the exchange (by the call, by
  \<open>raise_for_status\<close> or by \<open>json()\<close>) is caught by \<open>get\<close>, which prints it once and
  returns \<open>None\<close>; no method of the command-line client ever raises a RequestException.
  In the dashboard client, when an exchange of a call of \<open>safe_request\<close> raises (after
  any number of rate-limited attempts that the interpreter admits), the call returns
  \<open>None\<close> and shows that error exactly once; no accessor of the dashboard client
  raises a RequestException either.
\<close>

theorem request_errors_are_caught:
  "(failure (w (length (sent s))) = Some e \<and> is_RequestException e \<longrightarrow>
      get w endpoint ps s =
        (Inr JNull, s\<lparr>sent := sent s @ [(endpoint, ps)], printed := printed s @ [API_Error e]\<rparr>)) \<and>
   (fst (get w endpoint ps s) = Inl x \<longrightarrow> \<not> is_RequestException x) \<and>
   (get_markets w limit status series_ticker s = Some (Inl x, s') \<longrightarrow> \<not> is_RequestException x) \<and>
   (fst (get_market w ticker s) = Inl x \<longrightarrow> \<not> is_RequestException x) \<and>
   (fst (get_orderbook w ticker depth s) = Inl x \<longrightarrow> \<not> is_RequestException x) \<and>
   (fst (get_trades w tk limit s) = Inl x \<longrightarrow> \<not> is_RequestException x) \<and>
   (fst (get_series w st s) = Inl x \<longrightarrow> \<not> is_RequestException x) \<and>
   ((\<forall>i<k. rate_limited (result (v (pos d + i)))) \<and> k \<le> room \<and>
    \<not> rate_limited (result (v (pos d + k))) \<and> failure (result (v (pos d + k))) = Some e \<longrightarrow>
      (\<exists>d' evs. safe_request v endpoint ps room d = (JNull, d') \<and>
         trace d' = trace d @ evs \<and> errors_of evs = [e])) \<and>
   (fst (simple_get_markets v limit room d) = Inl x \<longrightarrow> \<not> is_RequestException x) \<and>
   (fst (simple_get_orderbook v ticker room d) = Inl x \<longrightarrow> \<not> is_RequestException x) \<and>
   (fst (simple_get_trades v limit room d) = Inl x \<longrightarrow> \<not> is_RequestException x)"
proof (intro conjI impI)
  assume "failure (w (length (sent s))) = Some e \<and> is_RequestException e"
  then show "get w endpoint ps s =
        (Inr JNull, s\<lparr>sent := sent s @ [(endpoint, ps)], printed := printed s @ [API_Error e]\<rparr>)"
    by (simp add: get_caught)
next
  assume "(\<forall>i<k. rate_limited (result (v (pos d + i)))) \<and> k \<le> room \<and>
    \<not> rate_limited (result (v (pos d + k))) \<and> failure (result (v (pos d + k))) = Some e"
  then show "\<exists>d' evs. safe_request v endpoint ps room d = (JNull, d') \<and>
         trace d' = trace d @ evs \<and> errors_of evs = [e]"
    using safe_request_caught [of k v d room e endpoint ps] by blast
qed (blast dest: get_raises get_markets_raises accessors_raise simple_accessors_raise)+

theorem request_errors_are_caught_witness:
  "get down ''/series'' None start =
     (Inr JNull, \<lparr>sent = [(''/series'', None)],
                  printed = [API_Error (RequestException ''connection refused'')]\<rparr>) \<and>
   \<not> is_RequestException (OtherException ''interrupted'') \<and>
   (\<exists>d' evs. safe_request limited_then_down ''/markets'' None 5 (init 10 0) = (JNull, d') \<and>
      trace d' = trace (init 10 0) @ evs \<and> errors_of evs = [HTTPError 503])"
proof -
  have 1: "failure (down (length (sent start))) = Some (RequestException ''connection refused'') \<and>
           is_RequestException (RequestException ''connection refused'')"
    by (simp add: failure_def down_def)
  have 2: "fst (get broken ''/series'' None start) = Inl (OtherException ''interrupted'')"
    by (simp add: get_def broken_def handle_request_exception_def)
  have 3: "(\<forall>i<1. rate_limited (result (limited_then_down (pos (init 10 0) + i)))) \<and>
           (1::nat) \<le> 5 \<and>
           \<not> rate_limited (result (limited_then_down (pos (init 10 0) + 1))) \<and>
           failure (result (limited_then_down (pos (init 10 0) + 1))) = Some (HTTPError 503)"
    by (simp add: failure_def rate_limited_def limited_then_down_def exchange_of_def init_def
        raise_for_status_def)
  show ?thesis
    using request_errors_are_caught [where w = down and s = start and endpoint = "''/series''"
        and ps = None and e = "RequestException ''connection refused''"] 1
      request_errors_are_caught [where w = broken and s = start and endpoint = "''/series''"
        and ps = None and x = "OtherException ''interrupted''"] 2
      request_errors_are_caught [where v = limited_then_down and d = "init 10 0" and k = 1
        and room = 5 and endpoint = "''/markets''" and ps = None and e = "HTTPError 503"] 3
    by (simp add: start_def)
qed

end
